theory Spec2Isabelle
  imports Main "HOL-Library.Word"
begin

unbundle bit_operations_syntax

section \<open>The parts of Go's net package that Get calls\<close>

text \<open>
  The repository is the single file \<^verbatim>\<open>localaddr.go\<close>, whose function \<^verbatim>\<open>Get\<close> calls
  \<^verbatim>\<open>net.Interfaces\<close>, \<^verbatim>\<open>Interface.Addrs\<close>, \<^verbatim>\<open>IP.IsLoopback\<close>, \<^verbatim>\<open>IP.To4\<close>, \<^verbatim>\<open>IP.String\<close> and
  \<^verbatim>\<open>fmt.Errorf\<close> of the Go standard library. This section gives those operations as
  executable functions; the section after it is \<^verbatim>\<open>Get\<close> itself.
\<close>

subsection \<open>Values\<close>

type_synonym byte = "8 word"

text \<open>
  \<^verbatim>\<open>type IP []byte\<close>. \<open>None\<close> is the nil slice, the only value for which \<^verbatim>\<open>ip == nil\<close>
  holds; \<open>Some []\<close> is an empty slice that is not nil. \<^verbatim>\<open>len\<close>, indexing and slicing
  do not tell the two apart.
\<close>

type_synonym IP = "byte list option"

definition bytes :: "IP \<Rightarrow> byte list" where
  "bytes ip = (case ip of None \<Rightarrow> [] | Some bs \<Rightarrow> bs)"

definition IPv4len :: nat where
  "IPv4len = 4"

definition IPv6len :: nat where
  "IPv6len = 16"

definition v4InV6Prefix :: "byte list" where
  "v4InV6Prefix = [0, 0, 0, 0, 0, 0, 0, 0, 0, 0, 0xff, 0xff]"

definition IPv6loopback :: IP where
  "IPv6loopback = Some [0, 0, 0, 0, 0, 0, 0, 0, 0, 0, 0, 0, 0, 0, 0, 1]"

text \<open>
  \<^verbatim>\<open>type error interface { Error() string }\<close>. Two kinds of value occur: the one that
  \<^verbatim>\<open>errors.New\<close> and a verb-free \<^verbatim>\<open>fmt.Errorf\<close> build from a message, and the
  \<^verbatim>\<open>*net.OpError\<close> (operation, network, cause) that the net package reports when the
  operating system refuses a query. Errors are compared by content.
\<close>

datatype error = ErrorString string | OpError string string error

text \<open>\<^verbatim>\<open>fmt.Errorf(format)\<close> for a format without verbs and without arguments.\<close>

definition Errorf :: "string \<Rightarrow> error" where
  "Errorf format = ErrorString format"

text \<open>\<^verbatim>\<open>type Flags uint\<close> and the two flag bits that Get tests (\<^verbatim>\<open>1 << iota\<close>).\<close>

type_synonym Flags = "64 word"

definition FlagUp :: Flags where
  "FlagUp = 1"

definition FlagLoopback :: Flags where
  "FlagLoopback = 4"

text \<open>\<^verbatim>\<open>type Interface struct { Index int; MTU int; Name string; HardwareAddr; Flags }\<close>\<close>

record Interface =
  Index :: int
  MTU :: int
  Name :: string
  HardwareAddr :: "byte list"
  Flags :: Flags

text \<open>
  \<^verbatim>\<open>type Addr interface\<close>. The dynamic type of an address is \<^verbatim>\<open>*net.IPNet\<close> (IP and
  mask), \<^verbatim>\<open>*net.IPAddr\<close> (IP and zone) or any other implementation of the interface,
  of which only the name of the type is kept. The pointers that \<^verbatim>\<open>Interface.Addrs\<close>
  hands out are never nil.
\<close>

datatype Addr = IPNet IP "byte list" | IPAddr IP string | OtherAddr string

subsection \<open>IP.To4, IP.Equal, IP.IsLoopback\<close>

definition isZeros :: "byte list \<Rightarrow> bool" where
  "isZeros p = list_all (\<lambda>b. b = 0) p"

text \<open>
  Modelled from the spec: the repository does not hold the net package; section 6 of the
  specification describes To4 as the narrowing operation to 4-byte form that returns
  absent if the value is not representable as IPv4. The definition follows \<^verbatim>\<open>IP.To4\<close>: a
  4-byte slice is returned as it is, a 16-byte slice with the prefix
  \<^verbatim>\<open>0:0:0:0:0:ffff\<close> yields its last four bytes, anything else nil.
\<close>

definition To4 :: "IP \<Rightarrow> IP" where
  "To4 ip =
     (let bs = bytes ip in
      if length bs = IPv4len then ip
      else if length bs = IPv6len \<and> isZeros (take 10 bs) \<and> bs ! 10 = 0xff \<and> bs ! 11 = 0xff
        then Some (take 4 (drop 12 bs))
      else None)"

text \<open>\<^verbatim>\<open>IP.Equal\<close>: an IPv4 address and the same address in IPv6 form are equal.\<close>

definition Equal :: "IP \<Rightarrow> IP \<Rightarrow> bool" where
  "Equal ip x =
     (let a = bytes ip; b = bytes x in
      if length a = length b then a = b
      else if length a = IPv4len \<and> length b = IPv6len
        then take 12 b = v4InV6Prefix \<and> a = drop 12 b
      else if length a = IPv6len \<and> length b = IPv4len
        then take 12 a = v4InV6Prefix \<and> drop 12 a = b
      else False)"

text \<open>
  Modelled from the spec: the loopback classification of an IP value (section 6), which
  the repository takes from the net package. The definition follows \<^verbatim>\<open>IP.IsLoopback\<close>:
  a value with a 4-byte form is loopback when its first byte is 127, any other value when
  it equals \<^verbatim>\<open>::1\<close>.
\<close>

definition IsLoopback :: "IP \<Rightarrow> bool" where
  "IsLoopback ip =
     (case To4 ip of
        Some ip4 \<Rightarrow> ip4 ! 0 = 127
      | None \<Rightarrow> Equal ip IPv6loopback)"

subsection \<open>IP.String\<close>

definition hexDigit :: string where
  "hexDigit = ''0123456789abcdef''"

text \<open>A byte in decimal, without leading zeros.\<close>

definition ubtoa :: "byte \<Rightarrow> string" where
  "ubtoa v =
     (if v < 10 then [hexDigit ! unat v]
      else if v < 100 then [hexDigit ! unat (v div 10), hexDigit ! unat (v mod 10)]
      else [hexDigit ! unat (v div 100), hexDigit ! unat ((v div 10) mod 10),
            hexDigit ! unat (v mod 10)])"

definition hexString :: "byte list \<Rightarrow> string" where
  "hexString b =
     concat (map (\<lambda>tn. [hexDigit ! unat (drop_bit 4 tn), hexDigit ! unat (tn AND 0xf)]) b)"

text \<open>A 16-bit group in hexadecimal, without leading zeros.\<close>

definition appendHex :: "nat \<Rightarrow> string" where
  "appendHex i =
     (if i = 0 then ''0''
      else concat (map (\<lambda>j. let v = i div 16 ^ j in
                             if v > 0 then [hexDigit ! (v mod 16)] else [])
                       [7, 6, 5, 4, 3, 2, 1, 0]))"

fun groups :: "byte list \<Rightarrow> nat list" where
  "groups (hi # lo # rest) = (unat hi * 256 + unat lo) # groups rest"
| "groups _ = []"

fun join_colon :: "string list \<Rightarrow> string" where
  "join_colon [] = []"
| "join_colon [g] = g"
| "join_colon (g # gs) = g @ '':'' @ join_colon gs"

text \<open>
  The first longest run of zero groups from position \<open>i\<close> on, as (start, end), when it
  is longer than the run \<open>best\<close> found so far.
\<close>

function zero_run :: "nat list \<Rightarrow> nat \<Rightarrow> nat \<times> nat \<Rightarrow> nat \<times> nat" where
  "zero_run gs i best =
     (if i < length gs then
        (let j = i + length (takeWhile (\<lambda>g. g = 0) (drop i gs)) in
         if j > i \<and> j - i > snd best - fst best then zero_run gs (Suc j) (i, j)
         else zero_run gs (Suc i) best)
      else best)"
  by pat_completeness auto
termination
  by (relation "measure (\<lambda>(gs, i, best). length gs - i)") auto

declare zero_run.simps [simp del]

text \<open>The IPv6 text form: a run of two or more zero groups is written \<^verbatim>\<open>::\<close>.\<close>

definition string6 :: "byte list \<Rightarrow> string" where
  "string6 p =
     (let gs = groups p; (e0, e1) = zero_run gs 0 (0, 0) in
      if e1 - e0 \<le> 1 then join_colon (map appendHex gs)
      else join_colon (map appendHex (take e0 gs)) @ ''::'' @
           join_colon (map appendHex (drop e1 gs)))"

text \<open>
  Modelled from the spec: the textual form of an IP value, which the repository takes
  from the net package; the specification calls it the dotted-decimal string form, four
  decimal octets separated by periods. The definition follows \<^verbatim>\<open>IP.String\<close>: a value
  with a 4-byte form is printed as dotted decimal, a 16-byte value without one as IPv6
  text, and a slice of any other length as \<^verbatim>\<open><nil>\<close> or \<^verbatim>\<open>?\<close> and its bytes in
  hexadecimal.
\<close>

definition String :: "IP \<Rightarrow> string" where
  "String ip =
     (if length (bytes ip) = 0 then ''<nil>''
      else if length (bytes ip) \<noteq> IPv4len \<and> length (bytes ip) \<noteq> IPv6len
        then ''?'' @ hexString (bytes ip)
      else if length (bytes (To4 ip)) = IPv4len
        then (let p4 = bytes (To4 ip) in
              ubtoa (p4 ! 0) @ ''.'' @ ubtoa (p4 ! 1) @ ''.'' @ ubtoa (p4 ! 2) @ ''.'' @
              ubtoa (p4 ! 3))
      else string6 (bytes ip))"

subsection \<open>The host: net.Interfaces and Interface.Addrs\<close>

text \<open>
  Get reads the network state of the host through two queries. The host is the table
  each query answers from, and the log of the queries made so far; a query returns its
  answer and the host with the query appended to the log.
\<close>

datatype query = QueryInterfaces | QueryAddrs Interface

record host =
  interface_table :: "error + Interface list"
  address_table :: "Interface \<Rightarrow> error + Addr list"
  queries :: "query list"

definition Interfaces :: "host \<Rightarrow> (error + Interface list) \<times> host" where
  "Interfaces h = (interface_table h, h\<lparr>queries := queries h @ [QueryInterfaces]\<rparr>)"

definition Addrs :: "Interface \<Rightarrow> host \<Rightarrow> (error + Addr list) \<times> host" where
  "Addrs ifi h = (address_table h ifi, h\<lparr>queries := queries h @ [QueryAddrs ifi]\<rparr>)"

section \<open>localaddr.Get\<close>

text \<open>
  Lines 37 to 43: the variable \<^verbatim>\<open>ip\<close> after the type switch. The switch has no default
  case, so \<^verbatim>\<open>ip\<close> stays nil for an address of any other dynamic type.
\<close>

fun switch_ip :: "Addr \<Rightarrow> IP" where
  "switch_ip (IPNet ip m) = ip"
| "switch_ip (IPAddr ip z) = ip"
| "switch_ip (OtherAddr t) = None"

text \<open>
  Lines 36 to 52, the loop over the addresses of one interface: \<open>Some s\<close> when the loop
  body returns \<^verbatim>\<open>s, nil\<close> from Get, \<open>None\<close> when the loop runs to its end.
\<close>

fun addrs_loop :: "Addr list \<Rightarrow> string option" where
  "addrs_loop [] = None"
| "addrs_loop (addr # addrs) =
     (let ip = switch_ip addr in
      if ip = None \<or> IsLoopback ip then addrs_loop addrs
      else
        (let ip = To4 ip in
         if ip = None then addrs_loop addrs
         else Some (String ip)))"

text \<open>
  Lines 25 to 53, the loop over the interfaces: \<open>Some r\<close> when the loop body returns
  \<open>r\<close> from Get, \<open>None\<close> when the loop runs to its end.
\<close>

fun interfaces_loop ::
  "Interface list \<Rightarrow> host \<Rightarrow> (string \<times> error option) option \<times> host" where
  "interfaces_loop [] h = (None, h)"
| "interfaces_loop (v # vs) h =
     (if Flags v AND FlagUp = 0 then interfaces_loop vs h
      else if Flags v AND FlagLoopback \<noteq> 0 then interfaces_loop vs h
      else
        (case Addrs v h of
           (Inl err, h') \<Rightarrow> (Some ('''', Some err), h')
         | (Inr addrs, h') \<Rightarrow>
             (case addrs_loop addrs of
                Some s \<Rightarrow> (Some (s, None), h')
              | None \<Rightarrow> interfaces_loop vs h')))"

text \<open>
  Get returns \<^verbatim>\<open>(string, error)\<close>; a nil error is \<open>None\<close>. The second component of
  the model's result is the host after the call.
\<close>

definition Get :: "host \<Rightarrow> (string \<times> error option) \<times> host" where
  "Get h =
     (case Interfaces h of
        (Inl err, h') \<Rightarrow> (('''', Some err), h')
      | (Inr interfaces, h') \<Rightarrow>
          (case interfaces_loop interfaces h' of
             (Some r, h'') \<Rightarrow> (r, h'')
           | (None, h'') \<Rightarrow> (('''', Some (Errorf ''not connected to the network'')), h'')))"


section \<open>Vocabulary of the properties\<close>

subsection \<open>The filters\<close>

text \<open>The two tests on an interface (lines 26 and 29) and their conjunction.\<close>

definition up :: "Interface \<Rightarrow> bool" where
  "up v \<longleftrightarrow> Flags v AND FlagUp \<noteq> 0"

definition loopback_interface :: "Interface \<Rightarrow> bool" where
  "loopback_interface v \<longleftrightarrow> Flags v AND FlagLoopback \<noteq> 0"

definition eligible :: "Interface \<Rightarrow> bool" where
  "eligible v \<longleftrightarrow> up v \<and> \<not> loopback_interface v"

text \<open>
  An address passes the filters on addresses (lines 44 and 48) when the IP value taken
  from it is not nil, is not loopback and has a 4-byte form.
\<close>

definition passes :: "Addr \<Rightarrow> bool" where
  "passes a \<longleftrightarrow>
     switch_ip a \<noteq> None \<and> \<not> IsLoopback (switch_ip a) \<and> To4 (switch_ip a) \<noteq> None"

text \<open>
  An interface yields nothing when it is down, or loopback, or its address list is
  retrieved and holds no address that passes.
\<close>

definition fruitless :: "(Interface \<Rightarrow> error + Addr list) \<Rightarrow> Interface \<Rightarrow> bool" where
  "fruitless T u \<longleftrightarrow>
     \<not> up u \<or> loopback_interface u \<or>
     (case T u of Inl e \<Rightarrow> False | Inr as \<Rightarrow> list_all (\<lambda>a. \<not> passes a) as)"

text \<open>
  The outcome of the loop over the interfaces and the address queries it makes, as a
  function of the address table alone. Lemma \<open>interfaces_loop_scan\<close> shows that the loop
  of the source computes exactly this; the proofs below go through it.
\<close>

fun scan ::
  "(Interface \<Rightarrow> error + Addr list) \<Rightarrow> Interface list \<Rightarrow>
     (string \<times> error option) option \<times> query list" where
  "scan T [] = (None, [])"
| "scan T (v # vs) =
     (if \<not> eligible v then scan T vs
      else
        (case T v of
           Inl err \<Rightarrow> (Some ('''', Some err), [QueryAddrs v])
         | Inr addrs \<Rightarrow>
             (case addrs_loop addrs of
                Some s \<Rightarrow> (Some (s, None), [QueryAddrs v])
              | None \<Rightarrow> (fst (scan T vs), QueryAddrs v # snd (scan T vs)))))"

text \<open>
  The pair Get returns and the queries it makes, as a function of the two tables of the
  host (lemma \<open>Get_outcome\<close>).
\<close>

definition outcome ::
  "error + Interface list \<Rightarrow> (Interface \<Rightarrow> error + Addr list) \<Rightarrow>
     (string \<times> error option) \<times> query list" where
  "outcome I T =
     (case I of
        Inl err \<Rightarrow> (('''', Some err), [QueryInterfaces])
      | Inr ifs \<Rightarrow>
          ((case fst (scan T ifs) of
              Some r \<Rightarrow> r
            | None \<Rightarrow> ('''', Some (ErrorString ''not connected to the network''))),
           QueryInterfaces # snd (scan T ifs)))"

subsection \<open>Dotted-decimal IPv4 literals\<close>

text \<open>
  A dotted-decimal IPv4 literal is four decimal octets separated by periods: the string
  splits at its periods into exactly four fields, each of one to three decimal digits,
  without a leading zero, of value at most 255.
\<close>

definition is_digit :: "char \<Rightarrow> bool" where
  "is_digit c \<longleftrightarrow> c \<in> set ''0123456789''"

definition digit_value :: "char \<Rightarrow> nat" where
  "digit_value c = of_char c - 48"

definition dec_value :: "string \<Rightarrow> nat" where
  "dec_value s = foldl (\<lambda>n c. 10 * n + digit_value c) 0 s"

definition decimal_octet :: "string \<Rightarrow> bool" where
  "decimal_octet f \<longleftrightarrow>
     f \<noteq> [] \<and> length f \<le> 3 \<and> list_all is_digit f \<and> (length f = 1 \<or> hd f \<noteq> CHR ''0'') \<and>
     dec_value f \<le> 255"

fun split_dots :: "string \<Rightarrow> string list" where
  "split_dots [] = [[]]"
| "split_dots (c # cs) =
     (if c = CHR ''.'' then [] # split_dots cs
      else (case split_dots cs of f # fs \<Rightarrow> (c # f) # fs | [] \<Rightarrow> [[c]]))"

definition dotted_decimal :: "string \<Rightarrow> bool" where
  "dotted_decimal s \<longleftrightarrow> length (split_dots s) = 4 \<and> list_all decimal_octet (split_dots s)"

text \<open>The numbers a dotted-decimal literal denotes.\<close>

definition octets :: "string \<Rightarrow> nat list" where
  "octets s = map dec_value (split_dots s)"

text \<open>The dotted-decimal text of four bytes.\<close>

definition dotted :: "byte list \<Rightarrow> string" where
  "dotted p = ubtoa (p ! 0) @ ''.'' @ ubtoa (p ! 1) @ ''.'' @ ubtoa (p ! 2) @ ''.'' @ ubtoa (p ! 3)"

subsection \<open>Example hosts\<close>

text \<open>
  Interfaces as Linux reports them: the loopback interface, a wireless interface that is
  down, two Ethernet interfaces that are up, a tunnel and a 6in4 interface. IPv4
  addresses come in the 16-byte form that \<^verbatim>\<open>net.IPv4\<close> builds.
\<close>

definition lo :: Interface where
  "lo = \<lparr>Index = 1, MTU = 65536, Name = ''lo'', HardwareAddr = [], Flags = 37\<rparr>"

definition wlan0 :: Interface where
  "wlan0 = \<lparr>Index = 2, MTU = 1500, Name = ''wlan0'',
     HardwareAddr = [0x02, 0x42, 0xac, 0x11, 0x00, 0x02], Flags = 18\<rparr>"

definition eth0 :: Interface where
  "eth0 = \<lparr>Index = 3, MTU = 1500, Name = ''eth0'',
     HardwareAddr = [0x02, 0x42, 0xac, 0x11, 0x00, 0x03], Flags = 51\<rparr>"

definition eth1 :: Interface where
  "eth1 = \<lparr>Index = 4, MTU = 1500, Name = ''eth1'',
     HardwareAddr = [0x02, 0x42, 0xac, 0x11, 0x00, 0x04], Flags = 51\<rparr>"

definition tun0 :: Interface where
  "tun0 = \<lparr>Index = 5, MTU = 1420, Name = ''tun0'', HardwareAddr = [], Flags = 57\<rparr>"

definition sit0 :: Interface where
  "sit0 = \<lparr>Index = 6, MTU = 1480, Name = ''sit0'', HardwareAddr = [], Flags = 33\<rparr>"

definition v4 :: "byte \<Rightarrow> byte \<Rightarrow> byte \<Rightarrow> byte \<Rightarrow> IP" where
  "v4 a b c d = Some [0, 0, 0, 0, 0, 0, 0, 0, 0, 0, 0xff, 0xff, a, b, c, d]"

definition linklocal :: IP where
  "linklocal = Some [0xfe, 0x80, 0, 0, 0, 0, 0, 0, 0, 0, 0, 0, 0, 0, 0, 1]"

definition lo_addrs :: "Addr list" where
  "lo_addrs = [IPNet (v4 127 0 0 1) [255, 0, 0, 0], IPNet IPv6loopback (replicate 16 255)]"

definition wlan0_addrs :: "Addr list" where
  "wlan0_addrs = [IPNet (v4 192 168 7 7) [255, 255, 255, 0]]"

definition eth0_addrs :: "Addr list" where
  "eth0_addrs =
     [IPNet linklocal (replicate 8 255 @ replicate 8 0), OtherAddr ''*net.UnixAddr'',
      IPAddr None [], IPNet (v4 127 0 0 53) [255, 0, 0, 0],
      IPNet (v4 10 0 0 5) [255, 255, 255, 0], IPAddr (Some [10, 0, 0, 6]) []]"

definition eth1_addrs :: "Addr list" where
  "eth1_addrs = [IPNet (v4 192 168 1 2) [255, 255, 255, 0]]"

definition sit0_addrs :: "Addr list" where
  "sit0_addrs =
     [IPNet linklocal (replicate 8 255 @ replicate 8 0), IPAddr None [],
      IPNet (v4 127 0 0 53) [255, 0, 0, 0], IPAddr (Some [1, 2, 3]) []]"

definition denied :: error where
  "denied = OpError ''route'' ''ip+net'' (ErrorString ''operation not permitted'')"

text \<open>The address query of the tunnel, and of any interface not listed, fails.\<close>

definition table :: "Interface \<Rightarrow> error + Addr list" where
  "table v =
     (if Index v = 1 then Inr lo_addrs
      else if Index v = 2 then Inr wlan0_addrs
      else if Index v = 3 then Inr eth0_addrs
      else if Index v = 4 then Inr eth1_addrs
      else if Index v = 6 then Inr sit0_addrs
      else Inl denied)"

definition host_ok :: host where
  "host_ok =
     \<lparr>interface_table = Inr [lo, wlan0, eth0, eth1], address_table = table, queries = []\<rparr>"

definition host_denied :: host where
  "host_denied = \<lparr>interface_table = Inl denied, address_table = table, queries = []\<rparr>"

definition host_broken :: host where
  "host_broken =
     \<lparr>interface_table = Inr [lo, tun0, eth1], address_table = table, queries = []\<rparr>"

definition host_offline :: host where
  "host_offline =
     \<lparr>interface_table = Inr [lo, wlan0, sit0], address_table = table, queries = []\<rparr>"

section \<open>The two loops\<close>

subsection \<open>The loop over the addresses\<close>

lemma addrs_loop_Cons:
  "addrs_loop (a # as) = (if passes a then Some (String (To4 (switch_ip a))) else addrs_loop as)"
  by (simp add: passes_def Let_def)

lemma addrs_loop_None_iff: "addrs_loop as = None \<longleftrightarrow> (\<forall>a\<in>set as. \<not> passes a)"
  by (induction as) (simp_all add: addrs_loop_Cons del: addrs_loop.simps(2))

lemma addrs_loop_append:
  "addrs_loop (as @ bs) = (case addrs_loop as of Some s \<Rightarrow> Some s | None \<Rightarrow> addrs_loop bs)"
  by (induction as) (simp_all add: addrs_loop_Cons del: addrs_loop.simps(2))

lemma addrs_loop_first:
  assumes "list_all (\<lambda>b. \<not> passes b) as1" and "passes a"
  shows "addrs_loop (as1 @ a # as2) = Some (String (To4 (switch_ip a)))"
proof -
  from assms(1) have "addrs_loop as1 = None"
    by (simp add: addrs_loop_None_iff list_all_iff)
  with assms(2) show ?thesis
    by (simp add: addrs_loop_append addrs_loop_Cons del: addrs_loop.simps(2))
qed

lemma addrs_loop_skip:
  assumes "\<not> passes a"
  shows "addrs_loop (as1 @ a # as2) = addrs_loop (as1 @ as2)"
  using assms
  by (simp add: addrs_loop_append addrs_loop_Cons del: addrs_loop.simps(2) split: option.splits)

lemma addrs_loop_Some:
  "addrs_loop as = Some s \<Longrightarrow> \<exists>a\<in>set as. passes a \<and> s = String (To4 (switch_ip a))"
proof (induction as)
  case Nil
  then show ?case by simp
next
  case (Cons x xs)
  show ?case
  proof (cases "passes x")
    case True
    with Cons.prems have "s = String (To4 (switch_ip x))"
      by (simp add: addrs_loop_Cons del: addrs_loop.simps(2))
    with True show ?thesis by simp
  next
    case False
    with Cons.prems have "addrs_loop xs = Some s"
      by (simp add: addrs_loop_Cons del: addrs_loop.simps(2))
    from Cons.IH [OF this] show ?thesis by auto
  qed
qed


subsection \<open>The loop over the interfaces\<close>

lemma interfaces_loop_scan:
  "interfaces_loop ifs h =
     (fst (scan (address_table h) ifs),
      h\<lparr>queries := queries h @ snd (scan (address_table h) ifs)\<rparr>)"
proof (induction ifs arbitrary: h)
  case Nil
  show ?case by simp
next
  case (Cons v vs)
  show ?case
    by (simp add: Cons.IH eligible_def up_def loopback_interface_def Addrs_def
        split: sum.splits option.splits)
qed

lemma Get_outcome:
  "Get h =
     (fst (outcome (interface_table h) (address_table h)),
      h\<lparr>queries := queries h @ snd (outcome (interface_table h) (address_table h))\<rparr>)"
  by (simp add: Get_def Interfaces_def interfaces_loop_scan Errorf_def outcome_def
      split: sum.splits option.splits)

lemma Get_fst: "fst (Get h) = fst (outcome (interface_table h) (address_table h))"
  by (simp add: Get_outcome)

lemma Get_queries:
  "queries (snd (Get h)) = queries h @ snd (outcome (interface_table h) (address_table h))"
  by (simp add: Get_outcome)

lemma Get_tables:
  "interface_table (snd (Get h)) = interface_table h"
  "address_table (snd (Get h)) = address_table h"
  by (simp_all add: Get_outcome)

lemma outcome_Inl: "outcome (Inl e) T = (('''', Some e), [QueryInterfaces])"
  by (simp add: outcome_def)

lemma outcome_Some:
  "fst (scan T ifs) = Some r \<Longrightarrow> outcome (Inr ifs) T = (r, QueryInterfaces # snd (scan T ifs))"
  by (simp add: outcome_def)

lemma outcome_None:
  "fst (scan T ifs) = None \<Longrightarrow>
     outcome (Inr ifs) T =
       (('''', Some (ErrorString ''not connected to the network'')),
        QueryInterfaces # snd (scan T ifs))"
  by (simp add: outcome_def)

lemma outcome_scan_cong:
  "scan T ifs = scan T' ifs' \<Longrightarrow> outcome (Inr ifs) T = outcome (Inr ifs') T'"
  by (simp add: outcome_def)

lemma outcome_table_cong:
  "(\<And>ifs. scan T ifs = scan T' ifs) \<Longrightarrow> outcome I T = outcome I T'"
  by (cases I) (simp_all add: outcome_def)

lemma outcome_queries: "snd (outcome (Inr ifs) T) = QueryInterfaces # snd (scan T ifs)"
  by (simp add: outcome_def split: option.splits)

lemma outcome_success:
  "fst (outcome I T) = (s, None) \<Longrightarrow> \<exists>ifs. I = Inr ifs \<and> fst (scan T ifs) = Some (s, None)"
  by (cases I) (auto simp: outcome_def split: option.splits)

lemma scan_exhausted:
  "eligible v \<Longrightarrow> T v = Inr as \<Longrightarrow> \<forall>a\<in>set as. \<not> passes a \<Longrightarrow>
     scan T (v # vs) = (fst (scan T vs), QueryAddrs v # snd (scan T vs))"
  by (simp add: addrs_loop_None_iff [symmetric])

lemma fruitless_cases:
  "fruitless T u \<Longrightarrow>
     \<not> eligible u \<or> (eligible u \<and> (\<exists>as. T u = Inr as \<and> (\<forall>a\<in>set as. \<not> passes a)))"
  by (auto simp: fruitless_def eligible_def list_all_iff split: sum.splits)

lemma scan_prefix:
  "list_all (fruitless T) pre \<Longrightarrow>
     scan T (pre @ rest) =
       (fst (scan T rest), map QueryAddrs (filter eligible pre) @ snd (scan T rest))"
proof (induction pre)
  case Nil
  show ?case by simp
next
  case (Cons u us)
  then have u: "fruitless T u" and us: "list_all (fruitless T) us"
    by simp_all
  from fruitless_cases [OF u] show ?case
  proof
    assume "\<not> eligible u"
    then show ?thesis using Cons.IH [OF us] by simp
  next
    assume "eligible u \<and> (\<exists>as. T u = Inr as \<and> (\<forall>a\<in>set as. \<not> passes a))"
    then obtain as where e: "eligible u" and t: "T u = Inr as" and n: "\<forall>a\<in>set as. \<not> passes a"
      by blast
    have "scan T ((u # us) @ rest) =
        (fst (scan T (us @ rest)), QueryAddrs u # snd (scan T (us @ rest)))"
      using scan_exhausted [of u T as "us @ rest"] e t n by simp
    then show ?thesis using e Cons.IH [OF us] by simp
  qed
qed

lemma scan_cong:
  "\<forall>u\<in>set ifs. eligible u \<longrightarrow> T u = T' u \<Longrightarrow> scan T ifs = scan T' ifs"
  by (induction ifs) (simp_all split: sum.splits option.splits)

lemma scan_loops:
  "\<forall>u. rel_sum (=) (\<lambda>as bs. addrs_loop as = addrs_loop bs) (T u) (T' u) \<Longrightarrow>
     scan T ifs = scan T' ifs"
proof (induction ifs)
  case Nil
  show ?case by simp
next
  case (Cons v vs)
  then have r: "rel_sum (=) (\<lambda>as bs. addrs_loop as = addrs_loop bs) (T v) (T' v)"
    and ih: "scan T vs = scan T' vs"
    by simp_all
  show ?case
  proof (cases "T v")
    case (Inl e)
    with r have "T' v = Inl e" by (cases "T' v") simp_all
    with Inl ih show ?thesis by simp
  next
    case (Inr as)
    with r obtain bs where bs: "T' v = Inr bs" "addrs_loop as = addrs_loop bs"
      by (cases "T' v") simp_all
    with Inr ih show ?thesis by (simp split: option.splits)
  qed
qed

lemma scan_remove: "\<not> eligible v \<Longrightarrow> scan T (pre @ v # post) = scan T (pre @ post)"
  by (induction pre) (simp_all split: sum.splits option.splits)

lemma scan_queries: "set (snd (scan T ifs)) \<subseteq> QueryAddrs ` {v \<in> set ifs. eligible v}"
  by (induction ifs) (auto split: sum.splits option.splits)

lemma scan_error_string: "fst (scan T ifs) = Some (s, Some e) \<Longrightarrow> s = ''''"
  by (induction ifs) (auto split: sum.splits option.splits if_splits)

lemma scan_origin:
  "fst (scan T ifs) = Some (s, None) \<Longrightarrow>
     \<exists>v\<in>set ifs. eligible v \<and> (\<exists>as. T v = Inr as \<and> addrs_loop as = Some s)"
  by (induction ifs) (auto split: sum.splits option.splits if_splits)

lemma scan_failed_query:
  "QueryAddrs v \<in> set (snd (scan T ifs)) \<Longrightarrow> T v = Inl e \<Longrightarrow>
     fst (scan T ifs) = Some ('''', Some e) \<and>
     (\<exists>pre post. ifs = pre @ v # post \<and>
        snd (scan T ifs) = map QueryAddrs (filter eligible pre) @ [QueryAddrs v])"
proof (induction ifs)
  case Nil
  then show ?case by simp
next
  case (Cons u us)
  show ?case
  proof (cases "eligible u")
    case False
    with Cons.prems have "QueryAddrs v \<in> set (snd (scan T us))" by simp
    from Cons.IH [OF this Cons.prems(2)] obtain pre post where
      r: "fst (scan T us) = Some ('''', Some e)" and
      p: "us = pre @ v # post"
         "snd (scan T us) = map QueryAddrs (filter eligible pre) @ [QueryAddrs v]"
      by blast
    from False p have "u # us = (u # pre) @ v # post \<and>
        snd (scan T (u # us)) = map QueryAddrs (filter eligible (u # pre)) @ [QueryAddrs v]"
      by simp
    with False r show ?thesis by (metis scan.simps(2))
  next
    case True
    show ?thesis
    proof (cases "u = v")
      case u: True
      with True Cons.prems(2) have "scan T (u # us) = (Some ('''', Some e), [QueryAddrs v])"
        by simp
      moreover have "u # us = [] @ v # us" using u by simp
      ultimately have "fst (scan T (u # us)) = Some ('''', Some e) \<and>
          u # us = [] @ v # us \<and>
          snd (scan T (u # us)) = map QueryAddrs (filter eligible []) @ [QueryAddrs v]"
        by simp
      then show ?thesis by blast
    next
      case u: False
      with True Cons.prems(1) obtain as where
        a: "T u = Inr as" "addrs_loop as = None" "QueryAddrs v \<in> set (snd (scan T us))"
        by (auto split: sum.splits option.splits)
      from Cons.IH [OF a(3) Cons.prems(2)] obtain pre post where
        r: "fst (scan T us) = Some ('''', Some e)" and
        p: "us = pre @ v # post"
           "snd (scan T us) = map QueryAddrs (filter eligible pre) @ [QueryAddrs v]"
        by blast
      from True a r p have "fst (scan T (u # us)) = Some ('''', Some e) \<and>
          u # us = (u # pre) @ v # post \<and>
          snd (scan T (u # us)) = map QueryAddrs (filter eligible (u # pre)) @ [QueryAddrs v]"
        by simp
      then show ?thesis by blast
    qed
  qed
qed

section \<open>The text of an IPv4 address\<close>

lemma split_dots_field:
  "CHR ''.'' \<notin> set f \<Longrightarrow> split_dots (f @ CHR ''.'' # rest) = f # split_dots rest"
  by (induction f) auto

lemma split_dots_last: "CHR ''.'' \<notin> set f \<Longrightarrow> split_dots f = [f]"
  by (induction f) auto

lemma digit_char:
  "d < 10 \<Longrightarrow> is_digit (hexDigit ! d) \<and> digit_value (hexDigit ! d) = d \<and>
     (hexDigit ! d = CHR ''0'' \<longleftrightarrow> d = 0)"
proof -
  assume "d < 10"
  then have "d = 0 \<or> d = 1 \<or> d = 2 \<or> d = 3 \<or> d = 4 \<or> d = 5 \<or> d = 6 \<or> d = 7 \<or> d = 8 \<or> d = 9"
    by presburger
  then consider "d = 0" | "d = 1" | "d = 2" | "d = 3" | "d = 4" | "d = 5" | "d = 6" | "d = 7"
    | "d = 8" | "d = 9"
    by blast
  then show ?thesis
    by cases (simp_all add: hexDigit_def is_digit_def digit_value_def)
qed

lemma ubtoa_nat:
  "ubtoa v =
     (let n = unat v in
      if n < 10 then [hexDigit ! n]
      else if n < 100 then [hexDigit ! (n div 10), hexDigit ! (n mod 10)]
      else [hexDigit ! (n div 100), hexDigit ! ((n div 10) mod 10), hexDigit ! (n mod 10)])"
  by (simp add: ubtoa_def Let_def word_less_nat_alt unat_div unat_mod)

lemma ubtoa_octet: "decimal_octet (ubtoa v) \<and> dec_value (ubtoa v) = unat v"
proof -
  define n where "n = unat v"
  have n: "n < 256" using unsigned_less [of v, where ?'a = nat] by (simp add: n_def)
  consider (one) "n < 10" | (two) "10 \<le> n" "n < 100" | (three) "100 \<le> n"
    by linarith
  then show ?thesis
  proof cases
    case one
    then have "ubtoa v = [hexDigit ! n]"
      by (simp add: ubtoa_nat n_def Let_def)
    with one digit_char [of n] show ?thesis
      by (simp add: n_def [symmetric] decimal_octet_def dec_value_def)
  next
    case two
    then have u: "ubtoa v = [hexDigit ! (n div 10), hexDigit ! (n mod 10)]"
      by (simp add: ubtoa_nat n_def Let_def)
    have a: "n div 10 < 10 \<and> n mod 10 < 10 \<and> n div 10 \<noteq> 0" using two by arith
    have v: "10 * (n div 10) + n mod 10 = n" by simp
    from a digit_char [of "n div 10"] digit_char [of "n mod 10"] n v show ?thesis
      by (simp add: u n_def [symmetric] decimal_octet_def dec_value_def)
  next
    case three
    then have u: "ubtoa v =
        [hexDigit ! (n div 100), hexDigit ! (n div 10 mod 10), hexDigit ! (n mod 10)]"
      by (simp add: ubtoa_nat n_def Let_def)
    have a: "n div 100 < 10 \<and> n div 10 mod 10 < 10 \<and> n mod 10 < 10 \<and> n div 100 \<noteq> 0"
      using three n by arith
    have "n div 100 = n div 10 div 10" by (simp add: div_mult2_eq [symmetric])
    then have v: "10 * (10 * (n div 100) + n div 10 mod 10) + n mod 10 = n" by simp
    from a digit_char [of "n div 100"] digit_char [of "n div 10 mod 10"]
      digit_char [of "n mod 10"] n v
    show ?thesis
      by (simp add: u n_def [symmetric] decimal_octet_def dec_value_def)
  qed
qed

lemma ubtoa_digits: "c \<in> set (ubtoa v) \<Longrightarrow> is_digit c"
proof -
  assume c: "c \<in> set (ubtoa v)"
  have "list_all is_digit (ubtoa v)" using ubtoa_octet [of v] by (simp add: decimal_octet_def)
  then have "\<forall>c\<in>set (ubtoa v). is_digit c" by (simp only: list_all_iff)
  with c show ?thesis by blast
qed

lemma not_digit: "\<not> is_digit (CHR ''.'')" "\<not> is_digit (CHR '':'')" "\<not> is_digit (CHR ''?'')"
  "\<not> is_digit (CHR ''<'')"
  by (simp_all add: is_digit_def)

lemma ubtoa_no_dot: "CHR ''.'' \<notin> set (ubtoa v)"
  using ubtoa_digits [of "CHR ''.''" v] not_digit(1) by blast

lemma split_dots_dotted:
  "split_dots (dotted p) = [ubtoa (p ! 0), ubtoa (p ! 1), ubtoa (p ! 2), ubtoa (p ! 3)]"
  by (simp add: dotted_def split_dots_field ubtoa_no_dot split_dots_last)

lemma dotted_decimal_dotted: "dotted_decimal (dotted p)"
  by (simp add: dotted_decimal_def split_dots_dotted ubtoa_octet)

lemma length_four: "length p = 4 \<Longrightarrow> \<exists>a b c d. p = [a, b, c, d]"
  by (auto simp: numeral_eq_Suc length_Suc_conv)

lemma octets_dotted: "length p = 4 \<Longrightarrow> octets (dotted p) = map unat p"
proof -
  assume "length p = 4"
  then obtain a b c d where "p = [a, b, c, d]"
    using length_four by blast
  then show ?thesis by (simp add: octets_def split_dots_dotted ubtoa_octet)
qed

lemma To4_length: "To4 ip = Some p \<Longrightarrow> length p = 4"
  by (auto simp: To4_def Let_def bytes_def IPv4len_def IPv6len_def split: if_splits option.splits)

lemma String_four: "length p = 4 \<Longrightarrow> String (Some p) = dotted p"
  by (simp add: String_def To4_def bytes_def IPv4len_def IPv6len_def dotted_def)

lemma String_To4: "To4 ip = Some p \<Longrightarrow> String ip = dotted p \<and> String (To4 ip) = dotted p"
proof -
  assume h: "To4 ip = Some p"
  then have l: "length p = 4" by (rule To4_length)
  from h have "length (bytes ip) = 4 \<or> length (bytes ip) = 16"
    by (auto simp: To4_def Let_def IPv4len_def IPv6len_def split: if_splits)
  with h l have "String ip = dotted p"
    by (auto simp: String_def bytes_def IPv4len_def IPv6len_def dotted_def)
  with h l show ?thesis by (simp add: String_four)
qed

lemma passes_text:
  "passes a \<Longrightarrow>
     \<exists>p. To4 (switch_ip a) = Some p \<and> length p = 4 \<and> p ! 0 \<noteq> 127 \<and>
       String (To4 (switch_ip a)) = dotted p \<and> String (switch_ip a) = dotted p"
proof -
  assume a: "passes a"
  then obtain p where p: "To4 (switch_ip a) = Some p"
    by (auto simp: passes_def)
  from a p have "p ! 0 \<noteq> 127" by (simp add: passes_def IsLoopback_def)
  with p To4_length [OF p] String_To4 [OF p] show ?thesis by simp
qed

lemma dotted_chars: "c \<in> set (dotted p) \<Longrightarrow> is_digit c \<or> c = CHR ''.''"
  by (auto simp: dotted_def dest: ubtoa_digits)

lemma inj_unat: "inj (unat :: byte \<Rightarrow> nat)"
  by (rule injI) (simp add: word_unat_eq_iff)

lemma dotted_inject:
  assumes "length p = 4" and "length q = 4" and "dotted p = dotted q"
  shows "p = q"
proof -
  from assms(3) have "octets (dotted p) = octets (dotted q)"
    by (rule arg_cong)
  then have "map unat p = map unat q"
    by (simp only: octets_dotted [OF assms(1)] octets_dotted [OF assms(2)])
  then show ?thesis
    by (simp only: inj_map_eq_map [OF inj_unat])
qed

lemma length_groups: "length (groups bs) = length bs div 2"
  by (induction bs rule: groups.induct) simp_all

lemma join_colon_colon: "2 \<le> length xs \<Longrightarrow> CHR '':'' \<in> set (join_colon xs)"
proof -
  assume "2 \<le> length xs"
  then obtain x y zs where "xs = x # y # zs"
    by (cases xs; cases "tl xs") auto
  then show ?thesis by simp
qed

lemma string6_colon: "length p = 16 \<Longrightarrow> CHR '':'' \<in> set (string6 p)"
proof -
  assume "length p = 16"
  then have "2 \<le> length (map appendHex (groups p))"
    by (simp add: length_groups)
  then have c: "CHR '':'' \<in> set (join_colon (map appendHex (groups p)))"
    by (rule join_colon_colon)
  obtain e0 e1 where "zero_run (groups p) 0 (0, 0) = (e0, e1)"
    by (cases "zero_run (groups p) 0 (0, 0)")
  with c show ?thesis
    by (simp add: string6_def Let_def)
qed

lemma String_None_char:
  assumes "To4 ip = None"
  shows "\<exists>c\<in>set (String ip). \<not> is_digit c \<and> c \<noteq> CHR ''.''"
proof -
  consider (empty) "length (bytes ip) = 0"
    | (odd) "length (bytes ip) \<noteq> 0" "length (bytes ip) \<noteq> 4" "length (bytes ip) \<noteq> 16"
    | (four) "length (bytes ip) = 4"
    | (sixteen) "length (bytes ip) = 16"
    by blast
  then show ?thesis
  proof cases
    case empty
    then have "String ip = ''<nil>''" by (simp add: String_def)
    then show ?thesis using not_digit(4) by simp
  next
    case odd
    then have "String ip = ''?'' @ hexString (bytes ip)"
      by (simp add: String_def IPv4len_def IPv6len_def)
    then show ?thesis using not_digit(3) by simp
  next
    case four
    with assms show ?thesis
      by (simp add: To4_def Let_def IPv4len_def bytes_def split: option.splits)
  next
    case sixteen
    with assms have "String ip = string6 (bytes ip)"
      by (simp add: String_def IPv4len_def IPv6len_def bytes_def)
    with string6_colon [OF sixteen] not_digit(2) show ?thesis by auto
  qed
qed

lemma text_not_returned:
  assumes "IsLoopback ip \<or> To4 ip = None"
  shows "\<not> (\<exists>p. length p = 4 \<and> p ! 0 \<noteq> 127 \<and> String ip = dotted p)"
proof
  assume "\<exists>p. length p = 4 \<and> p ! 0 \<noteq> 127 \<and> String ip = dotted p"
  then obtain p where p: "length p = 4" "p ! 0 \<noteq> 127" "String ip = dotted p"
    by blast
  show False
  proof (cases "To4 ip")
    case None
    from String_None_char [OF this] obtain c where
      "c \<in> set (String ip)" "\<not> is_digit c" "c \<noteq> CHR ''.''"
      by blast
    with p(3) dotted_chars [of c p] show False by simp
  next
    case (Some q)
    with assms have "q ! 0 = 127" by (simp add: IsLoopback_def)
    moreover from String_To4 [OF Some] p(3) have "dotted p = dotted q" by simp
    with p(1) To4_length [OF Some] have "p = q" by (simp add: dotted_inject)
    ultimately show False using p(2) by simp
  qed
qed

section \<open>Where a successful result comes from\<close>

lemma Get_success:
  assumes "fst (Get h) = (s, None)"
  shows "\<exists>ifs v as a p. interface_table h = Inr ifs \<and> v \<in> set ifs \<and> eligible v \<and>
    address_table h v = Inr as \<and> a \<in> set as \<and> passes a \<and> To4 (switch_ip a) = Some p \<and>
    length p = 4 \<and> s = dotted p \<and> s = String (switch_ip a) \<and> p ! 0 \<noteq> 127"
proof -
  from assms have "fst (outcome (interface_table h) (address_table h)) = (s, None)"
    by (simp add: Get_fst)
  from outcome_success [OF this] obtain ifs where
    i: "interface_table h = Inr ifs" "fst (scan (address_table h) ifs) = Some (s, None)"
    by blast
  from scan_origin [OF i(2)] obtain v as where
    v: "v \<in> set ifs" "eligible v" "address_table h v = Inr as" "addrs_loop as = Some s"
    by blast
  from addrs_loop_Some [OF v(4)] obtain a where
    a: "a \<in> set as" "passes a" "s = String (To4 (switch_ip a))"
    by blast
  from passes_text [OF a(2)] obtain p where
    p: "To4 (switch_ip a) = Some p" "length p = 4" "p ! 0 \<noteq> 127"
       "String (To4 (switch_ip a)) = dotted p" "String (switch_ip a) = dotted p"
    by blast
  from i(1) v a p have "interface_table h = Inr ifs \<and> v \<in> set ifs \<and> eligible v \<and>
      address_table h v = Inr as \<and> a \<in> set as \<and> passes a \<and> To4 (switch_ip a) = Some p \<and>
      length p = 4 \<and> s = dotted p \<and> s = String (switch_ip a) \<and> p ! 0 \<noteq> 127"
    by simp
  then show ?thesis by blast
qed

section \<open>The example hosts\<close>

lemmas net_defs = bytes_def IPv4len_def IPv6len_def v4InV6Prefix_def IPv6loopback_def
  isZeros_def To4_def Equal_def IsLoopback_def FlagUp_def FlagLoopback_def

lemma example_flags:
  "\<not> eligible lo" "\<not> eligible wlan0" "eligible eth0" "eligible eth1" "eligible tun0"
  "eligible sit0" "up lo" "loopback_interface lo" "\<not> up wlan0" "up eth0"
  "\<not> loopback_interface eth0" "up eth1" "\<not> loopback_interface eth1" "up tun0"
  "\<not> loopback_interface tun0" "up sit0" "\<not> loopback_interface sit0"
  by (simp_all add: eligible_def up_def loopback_interface_def lo_def wlan0_def eth0_def
      eth1_def tun0_def sit0_def net_defs)

lemma example_passes:
  "\<not> passes (IPNet linklocal m)" "\<not> passes (OtherAddr t)" "\<not> passes (IPAddr None z)"
  "\<not> passes (IPNet (v4 127 0 0 53) m)" "passes (IPNet (v4 10 0 0 5) m)"
  "\<not> passes (IPNet (v4 127 0 0 1) m)" "\<not> passes (IPNet IPv6loopback m)"
  "passes (IPAddr (Some [10, 0, 0, 6]) z)" "passes (IPNet (v4 192 168 1 2) m)"
  "\<not> passes (IPAddr (Some [1, 2, 3]) z)"
  by (simp_all add: passes_def v4_def linklocal_def net_defs)

lemma example_text:
  "String (To4 (v4 10 0 0 5)) = ''10.0.0.5''"
  "String (To4 (v4 192 168 1 2)) = ''192.168.1.2''"
  "String (To4 (Some [10, 0, 0, 6])) = ''10.0.0.6''"
  "String (v4 127 0 0 53) = ''127.0.0.53''"
  by (simp_all add: String_def ubtoa_def hexDigit_def v4_def net_defs)

lemma example_table:
  "table lo = Inr lo_addrs" "table wlan0 = Inr wlan0_addrs" "table eth0 = Inr eth0_addrs"
  "table eth1 = Inr eth1_addrs" "table tun0 = Inl denied" "table sit0 = Inr sit0_addrs"
  by (simp_all add: table_def lo_def wlan0_def eth0_def eth1_def tun0_def sit0_def)

lemma example_loops:
  "addrs_loop lo_addrs = None" "addrs_loop wlan0_addrs = Some ''192.168.7.7''"
  "addrs_loop eth0_addrs = Some ''10.0.0.5''" "addrs_loop eth1_addrs = Some ''192.168.1.2''"
  "addrs_loop sit0_addrs = None"
  by (simp_all add: Let_def String_def ubtoa_def hexDigit_def lo_addrs_def wlan0_addrs_def
      eth0_addrs_def eth1_addrs_def sit0_addrs_def v4_def linklocal_def net_defs)

lemma example_fruitless:
  "fruitless table lo" "fruitless table wlan0" "fruitless table sit0"
  "\<not> fruitless table eth0" "\<not> fruitless table eth1" "\<not> fruitless table tun0"
  by (simp_all add: fruitless_def example_flags example_table list_all_iff
      addrs_loop_None_iff [symmetric] example_loops)

lemma Get_host_ok:
  "fst (Get host_ok) = (''10.0.0.5'', None)"
  "queries (snd (Get host_ok)) = [QueryInterfaces, QueryAddrs eth0]"
  by (simp_all add: Get_outcome outcome_def host_ok_def example_flags example_table example_loops)

lemma Get_host_denied:
  "fst (Get host_denied) = ([], Some denied)"
  "queries (snd (Get host_denied)) = [QueryInterfaces]"
  by (simp_all add: Get_outcome outcome_def host_denied_def)

lemma Get_host_broken:
  "fst (Get host_broken) = ([], Some denied)"
  "queries (snd (Get host_broken)) = [QueryInterfaces, QueryAddrs tun0]"
  by (simp_all add: Get_outcome outcome_def host_broken_def example_flags example_table example_loops)

lemma Get_host_offline:
  "fst (Get host_offline) = ([], Some (ErrorString ''not connected to the network''))"
  "queries (snd (Get host_offline)) = [QueryInterfaces, QueryAddrs sit0]"
  by (simp_all add: Get_outcome outcome_def host_offline_def example_flags example_table example_loops)

section \<open>Properties of Get\<close>

text \<open>
  C1 (first match): when the interface list is \<open>pre @ v # post\<close>, every interface of
  \<open>pre\<close> is down, loopback or holds no address that passes the filters, \<open>v\<close> is up and
  not loopback, and its address list is \<open>as1 @ a # as2\<close> where no address of \<open>as1\<close>
  passes and \<open>a\<close> does (its IP is not nil, not loopback and has a 4-byte form), Get
  returns the dotted-decimal text of \<open>a\<close> with a nil error. The result does not depend
  on \<open>as2\<close> or \<open>post\<close>, and the address query for \<open>v\<close> is the last query Get makes: no
  interface of \<open>post\<close> is consulted.
\<close>

theorem Get_first_match:
  assumes "interface_table h = Inr (pre @ v # post)"
    and "list_all (fruitless (address_table h)) pre"
    and "up v" and "\<not> loopback_interface v"
    and "address_table h v = Inr (as1 @ a # as2)"
    and "list_all (\<lambda>b. \<not> passes b) as1"
    and "switch_ip a \<noteq> None" and "\<not> IsLoopback (switch_ip a)" and "To4 (switch_ip a) \<noteq> None"
  shows "fst (Get h) = (String (To4 (switch_ip a)), None) \<and>
    dotted_decimal (String (To4 (switch_ip a))) \<and>
    queries (snd (Get h)) =
      queries h @ QueryInterfaces # map QueryAddrs (filter eligible pre) @ [QueryAddrs v]"
proof -
  let ?T = "address_table h"
  have a: "passes a" using assms(7-9) by (simp add: passes_def)
  have v: "eligible v" using assms(3,4) by (simp add: eligible_def)
  have "addrs_loop (as1 @ a # as2) = Some (String (To4 (switch_ip a)))"
    using assms(6) a by (rule addrs_loop_first)
  with v assms(5) have "scan ?T (v # post) =
      (Some (String (To4 (switch_ip a)), None), [QueryAddrs v])"
    by simp
  with scan_prefix [OF assms(2), of "v # post"] have "scan ?T (pre @ v # post) =
      (Some (String (To4 (switch_ip a)), None),
       map QueryAddrs (filter eligible pre) @ [QueryAddrs v])"
    by simp
  then have "outcome (Inr (pre @ v # post)) ?T =
      ((String (To4 (switch_ip a)), None),
       QueryInterfaces # map QueryAddrs (filter eligible pre) @ [QueryAddrs v])"
    by (simp add: outcome_def)
  moreover from passes_text [OF a] have "dotted_decimal (String (To4 (switch_ip a)))"
    using dotted_decimal_dotted by auto
  ultimately show ?thesis using assms(1) by (simp add: Get_fst Get_queries)
qed

theorem Get_first_match_witness:
  "fst (Get host_ok) = (''10.0.0.5'', None) \<and> dotted_decimal ''10.0.0.5'' \<and>
   queries (snd (Get host_ok)) = [QueryInterfaces, QueryAddrs eth0]"
proof -
  let ?a = "IPNet (v4 10 0 0 5) [255, 255, 255, 0]"
  have 1: "interface_table host_ok = Inr ([lo, wlan0] @ eth0 # [eth1])"
    by (simp add: host_ok_def)
  have 2: "list_all (fruitless (address_table host_ok)) [lo, wlan0]"
    by (simp add: host_ok_def example_fruitless)
  have 3: "address_table host_ok eth0 =
      Inr ([IPNet linklocal (replicate 8 255 @ replicate 8 0), OtherAddr ''*net.UnixAddr'',
            IPAddr None [], IPNet (v4 127 0 0 53) [255, 0, 0, 0]] @ ?a #
           [IPAddr (Some [10, 0, 0, 6]) []])"
    by (simp add: host_ok_def example_table eth0_addrs_def)
  have 4: "list_all (\<lambda>b. \<not> passes b)
      [IPNet linklocal (replicate 8 255 @ replicate 8 0), OtherAddr ''*net.UnixAddr'',
       IPAddr None [], IPNet (v4 127 0 0 53) [255, 0, 0, 0]]"
    by (simp add: example_passes)
  have 5: "switch_ip ?a \<noteq> None" "\<not> IsLoopback (switch_ip ?a)" "To4 (switch_ip ?a) \<noteq> None"
    using example_passes(5) [of "[255, 255, 255, 0]"] by (simp_all add: passes_def)
  from Get_first_match [OF 1 2 example_flags(10) example_flags(11) 3 4 5]
  show ?thesis
    by (simp add: example_text example_flags host_ok_def)
qed

text \<open>
  C2 (interfaces that are down or loopback): an interface \<open>v\<close> whose up flag is unset
  or whose loopback flag is set is skipped entirely. Get returns the same result and
  makes the same queries as on the interface list without \<open>v\<close>; its result is the same
  whatever the address query of \<open>v\<close> would answer (\<open>x\<close> is any answer at all); and Get
  never queries the addresses of \<open>v\<close>.
\<close>

theorem Get_skips_interface:
  assumes "\<not> up v \<or> loopback_interface v"
    and "interface_table h = Inr (pre @ v # post)"
  shows "fst (Get (h\<lparr>interface_table := Inr (pre @ post)\<rparr>)) = fst (Get h) \<and>
    queries (snd (Get (h\<lparr>interface_table := Inr (pre @ post)\<rparr>))) = queries (snd (Get h)) \<and>
    fst (Get (h\<lparr>address_table := (address_table h)(v := x)\<rparr>)) = fst (Get h) \<and>
    QueryAddrs v \<notin> set (drop (length (queries h)) (queries (snd (Get h))))"
proof -
  let ?T = "address_table h"
  have v: "\<not> eligible v" using assms(1) by (auto simp: eligible_def)
  have r: "scan ?T (pre @ v # post) = scan ?T (pre @ post)"
    using v by (rule scan_remove)
  have "\<forall>u\<in>set (pre @ v # post). eligible u \<longrightarrow> (?T(v := x)) u = ?T u"
    using v by auto
  then have c: "scan (?T(v := x)) (pre @ v # post) = scan ?T (pre @ v # post)"
    by (rule scan_cong)
  have q: "QueryAddrs v \<notin> set (snd (scan ?T (pre @ v # post)))"
    using scan_queries [of ?T "pre @ v # post"] v by auto
  from r [symmetric] have 1: "outcome (Inr (pre @ post)) ?T = outcome (Inr (pre @ v # post)) ?T"
    by (rule outcome_scan_cong)
  from c have 2: "outcome (Inr (pre @ v # post)) (?T(v := x)) = outcome (Inr (pre @ v # post)) ?T"
    by (rule outcome_scan_cong)
  from q have 3: "QueryAddrs v \<notin> set (snd (outcome (Inr (pre @ v # post)) ?T))"
    by (simp add: outcome_queries)
  have a: "fst (Get (h\<lparr>interface_table := Inr (pre @ post)\<rparr>)) = fst (Get h)"
    by (simp add: Get_fst assms(2) 1)
  have b: "queries (snd (Get (h\<lparr>interface_table := Inr (pre @ post)\<rparr>))) = queries (snd (Get h))"
    by (simp add: Get_queries assms(2) 1)
  have c: "fst (Get (h\<lparr>address_table := ?T(v := x)\<rparr>)) = fst (Get h)"
    by (simp add: Get_fst assms(2) 2)
  have d: "QueryAddrs v \<notin> set (drop (length (queries h)) (queries (snd (Get h))))"
    using 3 by (simp add: Get_queries assms(2))
  from a b c d show ?thesis by blast
qed

theorem Get_skips_interface_witness:
  "\<not> up wlan0 \<and>
   fst (Get (host_ok\<lparr>interface_table := Inr [lo, eth0, eth1]\<rparr>)) = (''10.0.0.5'', None) \<and>
   fst (Get (host_ok\<lparr>address_table := table(wlan0 := Inr eth1_addrs)\<rparr>)) = (''10.0.0.5'', None) \<and>
   QueryAddrs wlan0 \<notin> set (queries (snd (Get host_ok)))"
proof -
  have 1: "\<not> up wlan0 \<or> loopback_interface wlan0"
    by (simp add: example_flags)
  have 2: "interface_table host_ok = Inr ([lo] @ wlan0 # [eth0, eth1])"
    by (simp add: host_ok_def)
  have 3: "address_table host_ok = table" "queries host_ok = []"
    by (simp_all add: host_ok_def)
  from Get_skips_interface [OF 1 2, of "Inr eth1_addrs"] show ?thesis
    by (simp add: Get_host_ok(1) 3 example_flags)
qed

text \<open>
  C3 (addresses that are loopback or not IPv4): an address \<open>a\<close> whose IP value is
  loopback-classified, or has no 4-byte form, is skipped wherever it stands and whatever
  the flags of its interface \<open>v\<close> are. The loop over the addresses continues with the
  next address; Get returns the same result and makes the same queries as on the
  address list without \<open>a\<close>; and the text of \<open>a\<close> is never the string of a successful
  result.
\<close>

theorem Get_skips_address:
  assumes "IsLoopback (switch_ip a) \<or> To4 (switch_ip a) = None"
    and "address_table h v = Inr (as1 @ a # as2)"
  shows "addrs_loop (a # as2) = addrs_loop as2 \<and>
    fst (Get (h\<lparr>address_table := (address_table h)(v := Inr (as1 @ as2))\<rparr>)) = fst (Get h) \<and>
    queries (snd (Get (h\<lparr>address_table := (address_table h)(v := Inr (as1 @ as2))\<rparr>))) =
      queries (snd (Get h)) \<and>
    fst (Get h) \<noteq> (String (switch_ip a), None)"
proof -
  let ?T = "address_table h"
  let ?T' = "?T(v := Inr (as1 @ as2))"
  have a: "\<not> passes a" using assms(1) by (auto simp: passes_def)
  then have l: "addrs_loop (as1 @ a # as2) = addrs_loop (as1 @ as2)"
    by (rule addrs_loop_skip)
  have "\<forall>u. rel_sum (=) (\<lambda>as bs. addrs_loop as = addrs_loop bs) (?T' u) (?T u)"
  proof
    fix u
    show "rel_sum (=) (\<lambda>as bs. addrs_loop as = addrs_loop bs) (?T' u) (?T u)"
    proof (cases "u = v")
      case True
      with assms(2) l show ?thesis by simp
    next
      case False
      then show ?thesis by (cases "?T u") simp_all
    qed
  qed
  then have "\<And>ifs. scan ?T' ifs = scan ?T ifs"
    by (rule scan_loops)
  then have o: "outcome (interface_table h) ?T' = outcome (interface_table h) ?T"
    by (rule outcome_table_cong)
  have n: "fst (Get h) \<noteq> (String (switch_ip a), None)"
    using Get_success [of h "String (switch_ip a)"] text_not_returned [OF assms(1)] by blast
  from a have c: "addrs_loop (a # as2) = addrs_loop as2"
    by (simp add: addrs_loop_Cons del: addrs_loop.simps(2))
  have "fst (Get (h\<lparr>address_table := ?T'\<rparr>)) = fst (Get h)"
    using o by (simp add: Get_fst)
  moreover have "queries (snd (Get (h\<lparr>address_table := ?T'\<rparr>))) = queries (snd (Get h))"
    using o by (simp add: Get_queries)
  ultimately show ?thesis using c n by blast
qed

theorem Get_skips_address_witness:
  "(IsLoopback (v4 127 0 0 53) \<or> To4 (v4 127 0 0 53) = None) \<and>
   fst (Get (host_ok\<lparr>address_table := table(eth0 :=
     Inr ([IPNet linklocal (replicate 8 255 @ replicate 8 0), OtherAddr ''*net.UnixAddr'',
           IPAddr None []] @
          [IPNet (v4 10 0 0 5) [255, 255, 255, 0], IPAddr (Some [10, 0, 0, 6]) []]))\<rparr>)) =
     (''10.0.0.5'', None) \<and>
   fst (Get host_ok) \<noteq> (''127.0.0.53'', None)"
proof -
  let ?a = "IPNet (v4 127 0 0 53) [255, 0, 0, 0]"
  have 1: "IsLoopback (switch_ip ?a) \<or> To4 (switch_ip ?a) = None"
    using example_passes(4) [of "[255, 0, 0, 0]"] by (auto simp: passes_def v4_def)
  have 2: "address_table host_ok eth0 =
      Inr ([IPNet linklocal (replicate 8 255 @ replicate 8 0), OtherAddr ''*net.UnixAddr'',
            IPAddr None []] @ ?a #
           [IPNet (v4 10 0 0 5) [255, 255, 255, 0], IPAddr (Some [10, 0, 0, 6]) []])"
    by (simp add: host_ok_def example_table eth0_addrs_def)
  have 3: "address_table host_ok = table"
    by (simp add: host_ok_def)
  from Get_skips_address [OF 1 2] 1 show ?thesis
    by (simp add: Get_host_ok(1) 3 example_text)
qed

text \<open>
  C4 (the successful result): whenever Get returns a nil error, the returned string is
  a dotted-decimal IPv4 literal (four decimal octets, separated by periods), and it is
  the text of an address \<open>a\<close> in the address list of an interface \<open>v\<close> of the enumerated
  list that is up and not loopback; the octets of the string are the four bytes of the
  4-byte form of that address.
\<close>

theorem Get_success_text:
  assumes "fst (Get h) = (s, None)"
  shows "dotted_decimal s \<and>
    (\<exists>ifs v as a p. interface_table h = Inr ifs \<and> v \<in> set ifs \<and> up v \<and>
       \<not> loopback_interface v \<and> address_table h v = Inr as \<and> a \<in> set as \<and>
       To4 (switch_ip a) = Some p \<and> s = String (switch_ip a) \<and> octets s = map unat p)"
proof -
  from Get_success [OF assms] obtain ifs v as a p where
    h: "interface_table h = Inr ifs" "v \<in> set ifs" "eligible v" "address_table h v = Inr as"
       "a \<in> set as" "passes a" "To4 (switch_ip a) = Some p" "length p = 4" "s = dotted p"
       "s = String (switch_ip a)"
    by blast
  from h(8,9) have o: "octets s = map unat p" by (simp add: octets_dotted)
  from h(9) have d: "dotted_decimal s" by (simp add: dotted_decimal_dotted)
  from h(3) have "up v \<and> \<not> loopback_interface v" by (simp add: eligible_def)
  with h o d show ?thesis by blast
qed

theorem Get_success_text_witness:
  "fst (Get host_ok) = (''10.0.0.5'', None) \<and> dotted_decimal ''10.0.0.5''"
  using Get_success_text [OF Get_host_ok(1)] Get_host_ok(1) by simp

text \<open>
  C5 (exhaustion): when the interface list is retrieved and every interface in it is
  down, or loopback, or has an address list without any address that passes the filters
  (the empty interface list included), Get fails with the error whose message is
  "not connected to the network", and the string it returns is empty. It has queried the
  addresses of exactly the up, non-loopback interfaces, in order.
\<close>

theorem Get_not_connected:
  assumes "interface_table h = Inr ifs"
    and "list_all (fruitless (address_table h)) ifs"
  shows "fst (Get h) = ('''', Some (ErrorString ''not connected to the network'')) \<and>
    queries (snd (Get h)) = queries h @ QueryInterfaces # map QueryAddrs (filter eligible ifs)"
proof -
  from scan_prefix [OF assms(2), of "[]"] have
    "scan (address_table h) ifs = (None, map QueryAddrs (filter eligible ifs))"
    by simp
  then have "outcome (Inr ifs) (address_table h) =
      (('''', Some (ErrorString ''not connected to the network'')),
       QueryInterfaces # map QueryAddrs (filter eligible ifs))"
    by (simp add: outcome_def)
  with assms(1) show ?thesis by (simp add: Get_fst Get_queries)
qed

theorem Get_not_connected_witness:
  "list_all (fruitless (address_table host_offline)) [lo, wlan0, sit0] \<and>
   fst (Get host_offline) = ('''', Some (ErrorString ''not connected to the network'')) \<and>
   queries (snd (Get host_offline)) = [QueryInterfaces, QueryAddrs sit0]"
proof -
  have 1: "interface_table host_offline = Inr [lo, wlan0, sit0]"
    by (simp add: host_offline_def)
  have 2: "list_all (fruitless (address_table host_offline)) [lo, wlan0, sit0]"
    by (simp add: host_offline_def example_fruitless)
  from Get_not_connected [OF 1 2] 2 show ?thesis
    by (simp add: host_offline_def example_flags)
qed

text \<open>
  C6 (failure of the interface query): when the retrieval of the interface list fails
  with an error \<open>e\<close>, Get returns the empty string and that very error \<open>e\<close>, and the
  interface query is the only query it has made.
\<close>

theorem Get_interfaces_error:
  assumes "interface_table h = Inl e"
  shows "Get h = (('''', Some e), h\<lparr>queries := queries h @ [QueryInterfaces]\<rparr>)"
  using assms by (simp add: Get_def Interfaces_def)

theorem Get_interfaces_error_witness:
  "interface_table host_denied = Inl denied \<and> fst (Get host_denied) = ('''', Some denied) \<and>
   queries (snd (Get host_denied)) = [QueryInterfaces]"
proof -
  have 1: "interface_table host_denied = Inl denied"
    by (simp add: host_denied_def)
  from Get_interfaces_error [OF 1] 1 show ?thesis
    by (simp add: host_denied_def)
qed

text \<open>
  When Get queries the addresses of an interface: it does so for the first up,
  non-loopback interface that follows only interfaces yielding nothing.
\<close>

lemma Get_reaches:
  assumes "interface_table h = Inr (pre @ v # post)"
    and "list_all (fruitless (address_table h)) pre"
    and "up v" and "\<not> loopback_interface v"
  shows "QueryAddrs v \<in> set (drop (length (queries h)) (queries (snd (Get h))))"
proof -
  let ?T = "address_table h"
  have "eligible v" using assms(3,4) by (simp add: eligible_def)
  then have "QueryAddrs v \<in> set (snd (scan ?T (v # post)))"
    by (simp split: sum.splits option.splits)
  with scan_prefix [OF assms(2), of "v # post"]
  have "QueryAddrs v \<in> set (snd (scan ?T (pre @ v # post)))"
    by simp
  with assms(1) show ?thesis by (simp add: Get_queries outcome_queries)
qed

text \<open>
  C7 (failure of an address query): when Get queries the addresses of an interface \<open>v\<close>
  and that query fails with an error \<open>e\<close>, Get returns the empty string and that very
  error \<open>e\<close>. The failed query is the last query of the call: the interface list is
  \<open>pre @ v # post\<close>, and after the interface query only the up, non-loopback interfaces
  of \<open>pre\<close> and then \<open>v\<close> have been queried, no interface of \<open>post\<close>.
\<close>

theorem Get_addrs_error:
  assumes "interface_table h = Inr ifs"
    and "address_table h v = Inl e"
    and "QueryAddrs v \<in> set (drop (length (queries h)) (queries (snd (Get h))))"
  shows "fst (Get h) = ('''', Some e) \<and>
    (\<exists>pre post. ifs = pre @ v # post \<and>
       queries (snd (Get h)) =
         queries h @ QueryInterfaces # map QueryAddrs (filter eligible pre) @ [QueryAddrs v])"
proof -
  let ?T = "address_table h"
  from assms(1,3) have "QueryAddrs v \<in> set (snd (scan ?T ifs))"
    by (simp add: Get_queries outcome_queries)
  from scan_failed_query [OF this assms(2)] obtain pre post where
    r: "fst (scan ?T ifs) = Some ('''', Some e)" and
    p: "ifs = pre @ v # post"
       "snd (scan ?T ifs) = map QueryAddrs (filter eligible pre) @ [QueryAddrs v]"
    by blast
  from r p(2) have "outcome (Inr ifs) ?T =
      (('''', Some e), QueryInterfaces # map QueryAddrs (filter eligible pre) @ [QueryAddrs v])"
    by (simp add: outcome_def)
  with assms(1) have "fst (Get h) = ('''', Some e) \<and> ifs = pre @ v # post \<and>
      queries (snd (Get h)) =
        queries h @ QueryInterfaces # map QueryAddrs (filter eligible pre) @ [QueryAddrs v]"
    using p(1) by (simp add: Get_fst Get_queries)
  then show ?thesis by blast
qed

theorem Get_addrs_error_witness:
  "address_table host_broken tun0 = Inl denied \<and>
   QueryAddrs tun0 \<in> set (queries (snd (Get host_broken))) \<and>
   fst (Get host_broken) = ('''', Some denied)"
proof -
  have 1: "interface_table host_broken = Inr [lo, tun0, eth1]"
    by (simp add: host_broken_def)
  have 2: "address_table host_broken tun0 = Inl denied"
    by (simp add: host_broken_def example_table)
  have q: "queries host_broken = []"
    by (simp add: host_broken_def)
  have 3: "QueryAddrs tun0 \<in>
      set (drop (length (queries host_broken)) (queries (snd (Get host_broken))))"
    by (simp add: Get_host_broken(2) q)
  from Get_addrs_error [OF 1 2 3] 2 3 show ?thesis
    by (simp add: q)
qed



text \<open>
  C9 (determinism): the pair (string, error) that Get returns is a function of the
  interface list and the address lists the host reports. Two runs on hosts that answer
  the two queries alike return the same pair, whatever was queried before; in
  particular a second call right after the first returns what the first returned.
\<close>

theorem Get_deterministic:
  assumes "interface_table h1 = interface_table h2"
    and "address_table h1 = address_table h2"
  shows "fst (Get h1) = fst (Get h2) \<and> fst (Get (snd (Get h1))) = fst (Get h1)"
proof -
  have "fst (Get (snd (Get h1))) = fst (Get h1)"
    by (simp add: Get_fst [of "snd (Get h1)"] Get_tables Get_fst [of h1])
  with assms show ?thesis
    by (simp add: Get_fst [of h1] Get_fst [of h2])
qed

theorem Get_deterministic_witness:
  "fst (Get (host_ok\<lparr>queries := [QueryInterfaces, QueryAddrs eth0]\<rparr>)) = (''10.0.0.5'', None) \<and>
   fst (Get (snd (Get host_ok))) = (''10.0.0.5'', None)"
proof -
  let ?h = "host_ok\<lparr>queries := [QueryInterfaces, QueryAddrs eth0]\<rparr>"
  have 1: "interface_table host_ok = interface_table ?h"
    by simp
  have 2: "address_table host_ok = address_table ?h"
    by simp
  from Get_deterministic [OF 1 2] show ?thesis
    by (simp add: Get_host_ok(1))
qed

text \<open>
  C10 (no partial result): whenever Get returns an error that is not nil, whichever of
  its three failures it is, the string it returns is empty.
\<close>

theorem Get_error_empty:
  assumes "snd (fst (Get h)) \<noteq> None"
  shows "fst (fst (Get h)) = ''''"
proof (cases "interface_table h")
  case (Inl e)
  then show ?thesis by (simp add: Get_fst outcome_Inl)
next
  case (Inr ifs)
  show ?thesis
  proof (cases "fst (scan (address_table h) ifs)")
    case None
    with Inr show ?thesis by (simp add: Get_fst outcome_None)
  next
    case (Some r)
    then have o: "fst (outcome (Inr ifs) (address_table h)) = r"
      by (simp add: outcome_Some)
    with Inr assms obtain s e where r: "r = (s, Some e)"
      by (cases r) (auto simp: Get_fst)
    with Some have "s = ''''"
      using scan_error_string [of "address_table h" ifs s e] by simp
    with o r Inr show ?thesis by (simp add: Get_fst)
  qed
qed

theorem Get_error_empty_witness:
  "snd (fst (Get host_broken)) \<noteq> None \<and> fst (fst (Get host_broken)) = ''''"
proof -
  have 1: "snd (fst (Get host_broken)) \<noteq> None"
    by (simp add: Get_host_broken(1))
  from Get_error_empty [OF 1] 1 show ?thesis
    by simp
qed

end
